theory Spec2Isabelle
  imports Main "HOL-Library.AList" "HOL-Library.Char_ord" "HOL-Library.List_Lexorder"
begin

section \<open>Values, errors and the environment of lh_update_cache.py\<close>

text \<open>
  What \<^verbatim>\<open>json.load\<close> and \<^verbatim>\<open>response.json()\<close> return: Python values built from
  JSON. \<open>JNull\<close> is Python's \<^verbatim>\<open>None\<close>, a \<open>JObj\<close> is a \<^verbatim>\<open>dict\<close> with string keys,
  kept as an association list in insertion order (lookup is \<open>map_of\<close>, assignment is
  \<open>AList.update\<close>: an existing key keeps its place, a new key goes to the end, as in
  a Python dict). Numbers are integers; JSON floats are not modelled.
\<close>

datatype json =
    JNull
  | JBool bool
  | JNum int
  | JStr string
  | JArr "json list"
  | JObj "(string \<times> json) list"

text \<open>The exceptions the program can raise. Each is a value of the model.\<close>

datatype error =
    FileNotFoundError
  | JSONDecodeError
  | KeyError
  | TypeError
  | AttributeError
  | IndexError
  | HTTPError
  | RequestException
  | Unmodelled

text \<open>
  \<open>Unmodelled\<close> is no Python exception: it marks the inputs at which the model stops
  following the program (a device name, site slug or primary-IP URL that is not a
  string, where the program would format or pass on the value's \<^verbatim>\<open>str()\<close>).
  No theorem below is about such an input.
\<close>

text \<open>Python's truth value of a JSON value, as \<^verbatim>\<open>if x:\<close> and \<^verbatim>\<open>while x:\<close> test it.\<close>

fun truthy :: "json \<Rightarrow> bool" where
  "truthy JNull = False"
| "truthy (JBool b) = b"
| "truthy (JNum n) = (n \<noteq> 0)"
| "truthy (JStr s) = (s \<noteq> [])"
| "truthy (JArr xs) = (xs \<noteq> [])"
| "truthy (JObj kvs) = (kvs \<noteq> [])"

text \<open>\<^verbatim>\<open>x[key]\<close> with a string key: only a dict can be subscripted by a string.\<close>

fun getitem :: "json \<Rightarrow> string \<Rightarrow> error + json" where
  "getitem (JObj kvs) k = (case map_of kvs k of None \<Rightarrow> Inl KeyError | Some v \<Rightarrow> Inr v)"
| "getitem _ k = Inl TypeError"

text \<open>
  A dict key as \<^verbatim>\<open>json.dump\<close> writes it: a string is itself, \<^verbatim>\<open>None\<close> becomes
  \<^verbatim>\<open>"null"\<close>.
\<close>

fun json_key :: "string option \<Rightarrow> string" where
  "json_key None = ''null''"
| "json_key (Some k) = k"

text \<open>
  \<^verbatim>\<open>data.get(key, None)\<close>: only a dict has \<^verbatim>\<open>get\<close>; a dict loaded from JSON has no
  \<^verbatim>\<open>None\<close> key.
\<close>

fun dict_get :: "json \<Rightarrow> string option \<Rightarrow> error + json" where
  "dict_get (JObj kvs) None = Inr JNull"
| "dict_get (JObj kvs) (Some k) = (case map_of kvs k of None \<Rightarrow> Inr JNull | Some v \<Rightarrow> Inr v)"
| "dict_get _ key = Inl AttributeError"

text \<open>\<^verbatim>\<open>data[key] = value\<close>: only a dict takes a string (or \<^verbatim>\<open>None\<close>) key.\<close>

fun setitem :: "json \<Rightarrow> string option \<Rightarrow> json \<Rightarrow> error + json" where
  "setitem (JObj kvs) key v = Inr (JObj (AList.update (json_key key) v kvs))"
| "setitem _ key v = Inl TypeError"

type_synonym path = string

text \<open>
  The JSON cache file, by what \<^verbatim>\<open>json.load\<close> makes of its content: \<open>Corrupt\<close> when
  the load raises \<^verbatim>\<open>JSONDecodeError\<close> (an empty file too), \<open>Parsed v\<close> when it returns
  \<open>v\<close>. \<^verbatim>\<open>json.dump\<close> followed by \<^verbatim>\<open>json.load\<close> is taken to give the dumped value.
\<close>

datatype cache_file = Corrupt | Parsed json

text \<open>What the program does to the outside: HTTP requests and opening the JSON cache.\<close>

datatype event = HttpGet string | Open path

text \<open>
  The state the resolver runs in: the JSON files by path (a missing path is a file that
  does not exist) and the trace of the effects so far.
\<close>

record world =
  files :: "path \<rightharpoonup> cache_file"
  trace :: "event list"

text \<open>
  \<^verbatim>\<open>requests.get\<close>: \<open>Failure\<close> when the call itself raises (no connection, bad URL),
  otherwise the status code and the body as \<^verbatim>\<open>response.json()\<close> decodes it
  (\<open>None\<close> when that raises). The network is any function of the effects so far and of
  the URL requested; the keyword arguments (headers) are part of it.
\<close>

datatype reply = Failure | Reply nat "json option"

type_synonym network = "event list \<Rightarrow> string \<Rightarrow> reply"

definition log_event :: "event \<Rightarrow> world \<Rightarrow> world" where
  "log_event e w = w\<lparr>trace := trace w @ [e]\<rparr>"

text \<open>\<^verbatim>\<open>response.raise_for_status()\<close> raises for the 4xx and 5xx codes.\<close>

definition raise_for_status :: "nat \<Rightarrow> bool" where
  "raise_for_status st = (400 \<le> st \<and> st < 600)"

section \<open>NetboxHost\<close>

record NetboxHost =
  name :: string
  slug :: string
  cachefile :: "path option"
  primary_ip_url :: "string option"
  dns_name :: json

text \<open>The constructor call \<^verbatim>\<open>NetboxHost(name=.., slug=.., cachefile=..)\<close> with its defaults.\<close>

definition new_host :: "string \<Rightarrow> string \<Rightarrow> path option \<Rightarrow> NetboxHost" where
  "new_host n s cf =
     \<lparr>name = n, slug = s, cachefile = cf, primary_ip_url = None, dns_name = JNull\<rparr>"

text \<open>\<^verbatim>\<open>not self.primary_ip_url\<close> is true for \<^verbatim>\<open>None\<close> and for the empty string.\<close>

fun url_truthy :: "string option \<Rightarrow> bool" where
  "url_truthy None = False"
| "url_truthy (Some u) = (u \<noteq> [])"

text \<open>The content of an opened cache file as the \<^verbatim>\<open>try\<close>/\<^verbatim>\<open>except\<close> block leaves \<^verbatim>\<open>data\<close>.\<close>

fun load_or_empty :: "cache_file \<Rightarrow> json" where
  "load_or_empty Corrupt = JObj []"
| "load_or_empty (Parsed v) = v"

text \<open>
  \<^verbatim>\<open>_get_fqdn_from_cache\<close>: \<^verbatim>\<open>open(self.cachefile, "r")\<close> needs a path and an existing
  file.
\<close>

definition get_fqdn_from_cache :: "NetboxHost \<Rightarrow> world \<Rightarrow> (error + NetboxHost) \<times> world" where
  "get_fqdn_from_cache d w =
     (case cachefile d of
        None \<Rightarrow> (Inl TypeError, w)
      | Some p \<Rightarrow>
          (let w1 = log_event (Open p) w in
           case files w p of
             None \<Rightarrow> (Inl FileNotFoundError, w1)
           | Some f \<Rightarrow>
               (case dict_get (load_or_empty f) (primary_ip_url d) of
                  Inl e \<Rightarrow> (Inl e, w1)
                | Inr v \<Rightarrow> (Inr (d\<lparr>dns_name := v\<rparr>), w1))))"

text \<open>
  \<^verbatim>\<open>_write_fqdn_to_cache\<close>: \<^verbatim>\<open>open(self.cachefile, "r+")\<close> needs an existing file too;
  the whole mapping is written back over the old content.
\<close>

definition write_fqdn_to_cache :: "NetboxHost \<Rightarrow> world \<Rightarrow> (error + NetboxHost) \<times> world" where
  "write_fqdn_to_cache d w =
     (case cachefile d of
        None \<Rightarrow> (Inl TypeError, w)
      | Some p \<Rightarrow>
          (let w1 = log_event (Open p) w in
           case files w p of
             None \<Rightarrow> (Inl FileNotFoundError, w1)
           | Some f \<Rightarrow>
               (case setitem (load_or_empty f) (primary_ip_url d) (dns_name d) of
                  Inl e \<Rightarrow> (Inl e, w1)
                | Inr data \<Rightarrow> (Inr d, w1\<lparr>files := (files w1)(p \<mapsto> Parsed data)\<rparr>))))"

text \<open>
  \<^verbatim>\<open>_get_fqdn_from_api\<close>. \<^verbatim>\<open>requests.get(url=None)\<close> raises before anything is sent.
\<close>

definition get_fqdn_from_api :: "network \<Rightarrow> NetboxHost \<Rightarrow> world \<Rightarrow> (error + NetboxHost) \<times> world" where
  "get_fqdn_from_api net d w =
     (case primary_ip_url d of
        None \<Rightarrow> (Inl RequestException, w)
      | Some u \<Rightarrow>
          (let w1 = log_event (HttpGet u) w in
           case net (trace w) u of
             Failure \<Rightarrow> (Inl RequestException, w1)
           | Reply st body \<Rightarrow>
               if raise_for_status st then (Inl HTTPError, w1)
               else (case body of
                  None \<Rightarrow> (Inl JSONDecodeError, w1)
                | Some ip_info \<Rightarrow>
                    (case getitem ip_info ''dns_name'' of
                       Inl e \<Rightarrow> (Inl e, w1)
                     | Inr v \<Rightarrow>
                         if truthy v then
                           (let d1 = d\<lparr>dns_name := v\<rparr> in
                            if cachefile d1 \<noteq> None then write_fqdn_to_cache d1 w1
                            else (Inr d1, w1))
                         else (Inr d, w1)))))"

text \<open>\<^verbatim>\<open>get_fqdn\<close>.\<close>

definition get_fqdn :: "network \<Rightarrow> NetboxHost \<Rightarrow> world \<Rightarrow> (error + NetboxHost) \<times> world" where
  "get_fqdn net d w =
     (if \<not> url_truthy (primary_ip_url d) then
        (Inr (d\<lparr>dns_name := JStr (name d @ ''.'' @ slug d @ ''.wmnet'')\<rparr>), w)
      else
        (case (if cachefile d \<noteq> None then get_fqdn_from_cache d w else (Inr d, w)) of
           (Inl e, w1) \<Rightarrow> (Inl e, w1)
         | (Inr d1, w1) \<Rightarrow>
             if \<not> truthy (dns_name d1) then get_fqdn_from_api net d1 w1
             else (Inr d1, w1)))"

section \<open>The paginated fetcher\<close>

text \<open>
  \<^verbatim>\<open>results.extend(x)\<close> appends the items of an iterable: the elements of a list, the
  characters of a string, the keys of a dict (each once, in order); anything else is
  not iterable.
\<close>

fun extend :: "json list \<Rightarrow> json \<Rightarrow> error + json list" where
  "extend results (JArr xs) = Inr (results @ xs)"
| "extend results (JStr s) = Inr (results @ map (\<lambda>c. JStr [c]) s)"
| "extend results (JObj kvs) = Inr (results @ map (\<lambda>kv. JStr (fst kv)) (AList.clearjunk kvs))"
| "extend results _ = Inl TypeError"

text \<open>
  The \<^verbatim>\<open>while url:\<close> loop of \<^verbatim>\<open>fetch_all_results\<close>. After the first page \<^verbatim>\<open>url\<close> is
  whatever the body has under \<^verbatim>\<open>"next"\<close>; \<^verbatim>\<open>requests.get\<close> raises on a value that is not
  a string without sending anything. There is no \<^verbatim>\<open>raise_for_status\<close> in this function:
  the status code is not looked at. The loop need not end (a server can go on handing out
  next links), so the result is an option: \<open>None\<close> is the run that never returns.
\<close>

partial_function (option) fetch_loop ::
  "network \<Rightarrow> json \<Rightarrow> json list \<Rightarrow> world \<Rightarrow> ((error + json list) \<times> world) option" where
  "fetch_loop net url results w =
     (if \<not> truthy url then Some (Inr results, w)
      else (case url of
         JStr u \<Rightarrow>
           (case net (trace w) u of
              Failure \<Rightarrow> Some (Inl RequestException, log_event (HttpGet u) w)
            | Reply st body \<Rightarrow>
                (case body of
                   None \<Rightarrow> Some (Inl JSONDecodeError, log_event (HttpGet u) w)
                 | Some data \<Rightarrow>
                     (case getitem data ''results'' of
                        Inl e \<Rightarrow> Some (Inl e, log_event (HttpGet u) w)
                      | Inr rs \<Rightarrow>
                          (case extend results rs of
                             Inl e \<Rightarrow> Some (Inl e, log_event (HttpGet u) w)
                           | Inr results1 \<Rightarrow>
                               (case getitem data ''next'' of
                                  Inl e \<Rightarrow> Some (Inl e, log_event (HttpGet u) w)
                                | Inr nxt \<Rightarrow>
                                    fetch_loop net nxt results1 (log_event (HttpGet u) w))))))
       | _ \<Rightarrow> Some (Inl RequestException, w)))"

definition fetch_all_results ::
  "network \<Rightarrow> string \<Rightarrow> world \<Rightarrow> ((error + json list) \<times> world) option" where
  "fetch_all_results net url w = fetch_loop net (JStr url) [] w"

section \<open>The device-list builder\<close>

text \<open>The typed fields of \<^verbatim>\<open>NetboxHost\<close> are filled from JSON values.\<close>

fun as_str :: "json \<Rightarrow> error + string" where
  "as_str (JStr s) = Inr s"
| "as_str _ = Inl Unmodelled"

fun as_url :: "json \<Rightarrow> error + string option" where
  "as_url JNull = Inr None"
| "as_url (JStr s) = Inr (Some s)"
| "as_url _ = Inl Unmodelled"

text \<open>
  The first statements of the loop body of \<^verbatim>\<open>get_netbox_hosts\<close>: the device built from
  one record, in the program's order of evaluation (\<^verbatim>\<open>result["name"]\<close>,
  \<^verbatim>\<open>result["site"]["slug"]\<close>, \<^verbatim>\<open>result["primary_ip"]\<close>, then its \<^verbatim>\<open>["url"]\<close>).
\<close>

definition make_device :: "path option \<Rightarrow> json \<Rightarrow> error + NetboxHost" where
  "make_device cf result =
     (case getitem result ''name'' of Inl e \<Rightarrow> Inl e | Inr n \<Rightarrow>
     (case getitem result ''site'' of Inl e \<Rightarrow> Inl e | Inr site \<Rightarrow>
     (case getitem site ''slug'' of Inl e \<Rightarrow> Inl e | Inr s \<Rightarrow>
     (case as_str n of Inl e \<Rightarrow> Inl e | Inr n1 \<Rightarrow>
     (case as_str s of Inl e \<Rightarrow> Inl e | Inr s1 \<Rightarrow>
     (case getitem result ''primary_ip'' of Inl e \<Rightarrow> Inl e | Inr pip \<Rightarrow>
        if truthy pip then
          (case getitem pip ''url'' of Inl e \<Rightarrow> Inl e | Inr u \<Rightarrow>
          (case as_url u of Inl e \<Rightarrow> Inl e | Inr u1 \<Rightarrow>
             Inr ((new_host n1 s1 cf)\<lparr>primary_ip_url := u1\<rparr>)))
        else Inr (new_host n1 s1 cf)))))))"

text \<open>One turn of the \<^verbatim>\<open>for result in ...\<close> loop: \<^verbatim>\<open>hosts\<close> and the world before and after.\<close>

definition netbox_step ::
  "network \<Rightarrow> path option \<Rightarrow> json \<Rightarrow> json list \<Rightarrow> world \<Rightarrow> (error + json list) \<times> world" where
  "netbox_step net cf result hosts w =
     (case make_device cf result of
        Inl e \<Rightarrow> (Inl e, w)
      | Inr device \<Rightarrow>
          (case get_fqdn net device w of
             (Inl e, w1) \<Rightarrow> (Inl e, w1)
           | (Inr d1, w1) \<Rightarrow>
               (Inr (if truthy (dns_name d1) then hosts @ [dns_name d1] else hosts), w1)))"

fun netbox_loop ::
  "network \<Rightarrow> path option \<Rightarrow> json list \<Rightarrow> json list \<Rightarrow> world \<Rightarrow> (error + json list) \<times> world" where
  "netbox_loop net cf [] hosts w = (Inr hosts, w)"
| "netbox_loop net cf (result # rest) hosts w =
     (case netbox_step net cf result hosts w of
        (Inl e, w1) \<Rightarrow> (Inl e, w1)
      | (Inr hosts1, w1) \<Rightarrow> netbox_loop net cf rest hosts1 w1)"

abbreviation LF :: char where "LF \<equiv> CHR 0x0A"
abbreviation CR :: char where "CR \<equiv> CHR 0x0D"

text \<open>\<^verbatim>\<open>"\n".join(xs)\<close> on strings.\<close>

fun join_lines :: "string list \<Rightarrow> string" where
  "join_lines [] = []"
| "join_lines [x] = x"
| "join_lines (x # y # ys) = x @ LF # join_lines (y # ys)"

text \<open>\<^verbatim>\<open>str.join\<close> raises \<^verbatim>\<open>TypeError\<close> on an item that is not a string.\<close>

fun str_items :: "json list \<Rightarrow> error + string list" where
  "str_items [] = Inr []"
| "str_items (JStr s # xs) = (case str_items xs of Inl e \<Rightarrow> Inl e | Inr ss \<Rightarrow> Inr (s # ss))"
| "str_items (_ # xs) = Inl TypeError"

definition get_netbox_hosts ::
  "network \<Rightarrow> string \<Rightarrow> path option \<Rightarrow> world \<Rightarrow> ((error + string) \<times> world) option" where
  "get_netbox_hosts net url cf w =
     (case fetch_all_results net url w of
        None \<Rightarrow> None
      | Some (Inl e, w1) \<Rightarrow> Some (Inl e, w1)
      | Some (Inr results, w1) \<Rightarrow>
          (case netbox_loop net cf results [] w1 of
             (Inl e, w2) \<Rightarrow> Some (Inl e, w2)
           | (Inr hosts, w2) \<Rightarrow>
               (case str_items hosts of
                  Inl e \<Rightarrow> Some (Inl e, w2)
                | Inr names \<Rightarrow> Some (Inr (join_lines names), w2))))"

section \<open>Text files: the merger and the local known-hosts reader\<close>

text \<open>
  The text files by path, each with its content; a missing path is a file that does not
  exist. A character stands for a code point below 256. The cache directory itself is
  taken to exist. \<^verbatim>\<open>expanduser\<close> is left out: the home directory stays \<^verbatim>\<open>~\<close>.
\<close>

type_synonym text_files = "path \<rightharpoonup> string"

definition DEFAULT_CACHE_PATH :: path where
  "DEFAULT_CACHE_PATH = ''~/.cache/lazyhost''"

definition get_cache_file :: "string \<Rightarrow> path" where
  "get_cache_file nm =
     DEFAULT_CACHE_PATH @ ''/'' @ nm @ ''.'' @ (if nm = ''fqdn'' then ''json'' else ''txt'')"

text \<open>
  \<^verbatim>\<open>cachefiles[key]\<close> is \<^verbatim>\<open>get_cache_file(key)\<close> for each of the seven keys of the
  dict; these are the five that \<^verbatim>\<open>merge_cachefiles\<close> reads, in its order.
\<close>

definition cachefiles_to_merge :: "path list" where
  "cachefiles_to_merge =
     map get_cache_file
       [''local_known_hosts'', ''known_hosts'', ''openstackbrowser'',
        ''netbox_virtual'', ''netbox_physical'']"

text \<open>
  Reading in text mode (\<^verbatim>\<open>open(.., "r")\<close>) turns \<^verbatim>\<open>\r\n\<close> and a lone \<^verbatim>\<open>\r\<close> into
  \<^verbatim>\<open>\n\<close>.
\<close>

fun universal_newlines :: "string \<Rightarrow> string" where
  "universal_newlines [] = []"
| "universal_newlines [c] = [if c = CR then LF else c]"
| "universal_newlines (c # d # cs) =
     (if c = CR \<and> d = LF then LF # universal_newlines cs
      else if c = CR then LF # universal_newlines (d # cs)
      else c # universal_newlines (d # cs))"

text \<open>The line boundaries of \<^verbatim>\<open>str.splitlines\<close> among the code points below 256.\<close>

definition is_linebreak :: "char \<Rightarrow> bool" where
  "is_linebreak c \<longleftrightarrow>
     c \<in> set [CHR 0x0A, CHR 0x0B, CHR 0x0C, CHR 0x0D, CHR 0x1C, CHR 0x1D, CHR 0x1E, CHR 0x85]"

text \<open>
  \<^verbatim>\<open>str.splitlines()\<close>: the lines without their terminators, \<^verbatim>\<open>\r\n\<close> counting as
  one boundary, and no empty last line after a final terminator.
\<close>

fun splitlines_from :: "string \<Rightarrow> string \<Rightarrow> string list" where
  "splitlines_from cur [] = (if cur = [] then [] else [cur])"
| "splitlines_from cur [c] = (if is_linebreak c then [cur] else [cur @ [c]])"
| "splitlines_from cur (c # d # cs) =
     (if c = CR \<and> d = LF then cur # splitlines_from [] cs
      else if is_linebreak c then cur # splitlines_from [] (d # cs)
      else splitlines_from (cur @ [c]) (d # cs))"

definition splitlines :: "string \<Rightarrow> string list" where
  "splitlines s = splitlines_from [] s"

text \<open>
  \<^verbatim>\<open>merge_cachefiles\<close>. \<^verbatim>\<open>sorted(set(xs))\<close> is the sorted list of the distinct items,
  strings compared code point by code point.
\<close>

definition merge_cachefiles :: "text_files \<Rightarrow> text_files" where
  "merge_cachefiles fs =
     (let merged_data =
            concat (map (\<lambda>cachefile.
                      case fs cachefile of
                        None \<Rightarrow> []
                      | Some content \<Rightarrow> splitlines (universal_newlines content))
                    cachefiles_to_merge)
      in fs(get_cache_file ''merged'' \<mapsto> join_lines (sort (remdups merged_data))))"

text \<open>
  The spec's words for the merged cache: the union of the lines of the source files that
  exist, as a set.
\<close>

definition spec_union_of_lines :: "text_files \<Rightarrow> string set" where
  "spec_union_of_lines fs =
     (\<Union>p \<in> set cachefiles_to_merge.
        case fs p of None \<Rightarrow> {} | Some content \<Rightarrow> set (splitlines (universal_newlines content)))"

text \<open>
  Iterating over a file opened in text mode gives its lines with the terminating
  \<^verbatim>\<open>\n\<close> kept (the last line may lack one).
\<close>

fun file_lines_from :: "string \<Rightarrow> string \<Rightarrow> string list" where
  "file_lines_from cur [] = (if cur = [] then [] else [cur])"
| "file_lines_from cur (c # cs) =
     (if c = LF then (cur @ [c]) # file_lines_from [] cs
      else file_lines_from (cur @ [c]) cs)"

definition file_lines :: "string \<Rightarrow> string list" where
  "file_lines content = file_lines_from [] (universal_newlines content)"

text \<open>The whitespace of \<^verbatim>\<open>str.split(None, ..)\<close> among the code points below 256.\<close>

definition is_space :: "char \<Rightarrow> bool" where
  "is_space c \<longleftrightarrow>
     c \<in> set [CHR 0x09, CHR 0x0A, CHR 0x0B, CHR 0x0C, CHR 0x0D, CHR 0x1C, CHR 0x1D,
              CHR 0x1E, CHR 0x1F, CHR 0x20, CHR 0x85, CHR 0xA0]"

text \<open>
  \<^verbatim>\<open>line.split(None, 1)\<close>: nothing for a line of whitespace only, else the first token
  and, when something follows the whitespace after it, the rest of the line.
\<close>

definition split_once :: "string \<Rightarrow> string list" where
  "split_once line =
     (let l1 = dropWhile is_space line in
      if l1 = [] then []
      else (let tok = takeWhile (\<lambda>c. \<not> is_space c) l1;
                rest = dropWhile is_space (dropWhile (\<lambda>c. \<not> is_space c) l1)
            in if rest = [] then [tok] else [tok, rest]))"

text \<open>\<^verbatim>\<open>xs[0]\<close>.\<close>

fun first_item :: "'a list \<Rightarrow> error + 'a" where
  "first_item [] = Inl IndexError"
| "first_item (x # xs) = Inr x"

text \<open>
  The generator \<^verbatim>\<open>line.split(None, 1)[0] for line in f\<close>, consumed in order: the first
  line that fails ends it.
\<close>

fun first_tokens :: "string list \<Rightarrow> error + string list" where
  "first_tokens [] = Inr []"
| "first_tokens (line # rest) =
     (case first_item (split_once line) of
        Inl e \<Rightarrow> Inl e
      | Inr tok \<Rightarrow> (case first_tokens rest of Inl e \<Rightarrow> Inl e | Inr toks \<Rightarrow> Inr (tok # toks)))"

text \<open>
  \<^verbatim>\<open>get_local_known_hosts\<close>. \<^verbatim>\<open>list(set(..))\<close> lists the distinct tokens in an order
  Python does not fix, so the function is a relation between the file and each outcome
  it can have: an error, or the tokens joined in some order.
\<close>

definition get_local_known_hosts :: "text_files \<Rightarrow> path \<Rightarrow> error + string \<Rightarrow> bool" where
  "get_local_known_hosts fs filepath outcome =
     (case fs filepath of
        None \<Rightarrow> outcome = Inl FileNotFoundError
      | Some content \<Rightarrow>
          (case first_tokens (file_lines content) of
             Inl e \<Rightarrow> outcome = Inl e
           | Inr toks \<Rightarrow>
               (\<exists>clean_hosts. distinct clean_hosts \<and> set clean_hosts = set toks
                  \<and> outcome = Inr (join_lines clean_hosts))))"

section \<open>Notions the properties are stated with\<close>

text \<open>
  The FQDN cache as a mapping: what the JSON object in the file at \<open>p\<close> has under key
  \<open>k\<close>. A missing file, a corrupt file and a file holding something other than an object
  have no entries.
\<close>

definition cached :: "world \<Rightarrow> path \<Rightarrow> string \<Rightarrow> json option" where
  "cached w p k =
     (case files w p of
        Some (Parsed (JObj kvs)) \<Rightarrow> map_of kvs k
      | _ \<Rightarrow> None)"

text \<open>
  The cache does not answer for URL \<open>u\<close>: no cache is configured, or the cache file can be
  read and has nothing, or an empty value, under \<open>u\<close>.
\<close>

definition cache_miss :: "path option \<Rightarrow> string \<Rightarrow> world \<Rightarrow> bool" where
  "cache_miss cf u w =
     (case cf of
        None \<Rightarrow> True
      | Some p \<Rightarrow>
          (case files w p of
             None \<Rightarrow> False
           | Some f \<Rightarrow>
               (case dict_get (load_or_empty f) (Some u) of
                  Inl e \<Rightarrow> False
                | Inr c \<Rightarrow> \<not> truthy c)))"

text \<open>The world once the cache, if there is one, has been opened for the lookup.\<close>

definition after_cache_read :: "path option \<Rightarrow> world \<Rightarrow> world" where
  "after_cache_read cf w = (case cf of None \<Rightarrow> w | Some p \<Rightarrow> log_event (Open p) w)"

text \<open>
  A sequence of pages, each given by its \<^verbatim>\<open>results\<close> array and its \<^verbatim>\<open>next\<close> value, is
  what the network serves from URL \<open>u\<close> on, after the effects \<open>tr\<close>: every request is
  answered by a JSON object that has both keys, every page but the last has a non-empty
  string under \<^verbatim>\<open>next\<close>, which the next page is requested from, and the last page has
  an empty value there (\<^verbatim>\<open>null\<close>, \<^verbatim>\<open>""\<close>, ...). The status codes are free.
\<close>

fun serves_pages :: "network \<Rightarrow> event list \<Rightarrow> string \<Rightarrow> (json list \<times> json) list \<Rightarrow> bool" where
  "serves_pages net tr u [] = False"
| "serves_pages net tr u ((rs, nxt) # pages) =
     (u \<noteq> [] \<and>
      (case net tr u of
         Failure \<Rightarrow> False
       | Reply st body \<Rightarrow>
           (case body of
              None \<Rightarrow> False
            | Some data \<Rightarrow>
                getitem data ''results'' = Inr (JArr rs) \<and> getitem data ''next'' = Inr nxt \<and>
                (if pages = [] then \<not> truthy nxt
                 else (case nxt of
                         JStr u1 \<Rightarrow> serves_pages net (tr @ [HttpGet u]) u1 pages
                       | _ \<Rightarrow> False)))))"

text \<open>The URLs of a page sequence: the first one, then each page's \<^verbatim>\<open>next\<close>.\<close>

fun page_urls :: "string \<Rightarrow> (json list \<times> json) list \<Rightarrow> string list" where
  "page_urls u [] = []"
| "page_urls u ((rs, nxt) # pages) =
     u # (case nxt of JStr u1 \<Rightarrow> page_urls u1 pages | _ \<Rightarrow> [])"

section \<open>Example inputs\<close>

text \<open>A device with a primary-IP URL and the cache file \<^verbatim>\<open>fqdn.json\<close>.\<close>

definition ex_device :: "string \<Rightarrow> string \<Rightarrow> NetboxHost" where
  "ex_device nm u = (new_host nm ''eqiad'' (Some ''fqdn.json''))\<lparr>primary_ip_url := Some u\<rparr>"

text \<open>The record of the device list that gives such a device.\<close>

definition ex_record :: "string \<Rightarrow> string \<Rightarrow> json" where
  "ex_record nm u =
     JObj [(''name'', JStr nm), (''site'', JObj [(''slug'', JStr ''eqiad'')]),
           (''primary_ip'', JObj [(''url'', JStr u)])]"

text \<open>A world whose cache file has one entry, and one with no file at all.\<close>

definition ex_world :: world where
  "ex_world =
     \<lparr>files = [''fqdn.json'' \<mapsto> Parsed (JObj [(''ip/1'', JStr ''db1001.eqiad.wmnet'')])],
      trace = []\<rparr>"

definition ex_no_files :: world where
  "ex_no_files = \<lparr>files = Map.empty, trace = []\<rparr>"

text \<open>Networks: one that is down, one that answers every request alike.\<close>

definition ex_down :: network where
  "ex_down tr u = Failure"

definition ex_always :: "nat \<Rightarrow> json \<Rightarrow> network" where
  "ex_always st body tr u = Reply st (Some body)"

text \<open>Three pages linked by \<^verbatim>\<open>next\<close>, the third with \<^verbatim>\<open>"next": null\<close>.\<close>

definition ex_three_pages :: network where
  "ex_three_pages tr u =
     (if u = ''p1'' then
        Reply 200 (Some (JObj [(''results'', JArr [JStr ''r1'', JStr ''r2'']), (''next'', JStr ''p2'')]))
      else if u = ''p2'' then
        Reply 200 (Some (JObj [(''results'', JArr [JStr ''r3'']), (''next'', JStr ''p3'')]))
      else if u = ''p3'' then
        Reply 200 (Some (JObj [(''results'', JArr [JStr ''r4'', JStr ''r5'']), (''next'', JNull)]))
      else Reply 404 None)"

text \<open>
  Two source caches, with the lines \<^verbatim>\<open>b\<close>, \<^verbatim>\<open>a\<close> and \<^verbatim>\<open>a\<close>, \<^verbatim>\<open>c\<close>, the other three
  missing, and a merged file left by an earlier run.
\<close>

definition ex_sources :: text_files where
  "ex_sources =
     [get_cache_file ''local_known_hosts'' \<mapsto> [CHR ''b'', LF, CHR ''a''],
      get_cache_file ''known_hosts'' \<mapsto> [CHR ''a'', LF, CHR ''c''],
      get_cache_file ''merged'' \<mapsto> ''stale'']"

text \<open>A known-hosts file whose second line is empty.\<close>

definition ex_known_hosts :: text_files where
  "ex_known_hosts = [''known_hosts'' \<mapsto> ''hostA ssh-rsa AAAA'' @ [LF, LF] @ ''hostB ssh-rsa BBBB'' @ [LF]]"

section \<open>Properties\<close>

subsection \<open>The resolver\<close>

text \<open>
  C6. A device without a primary-IP reference (\<^verbatim>\<open>primary_ip_url\<close> is \<^verbatim>\<open>None\<close> or
  empty) gets the name \<^verbatim>\<open>"{name}.{slug}.wmnet"\<close>; the files and the trace of effects
  are those before the call, whatever they and the network are: no cache file is
  opened and no request is sent.
\<close>

theorem get_fqdn_no_primary_ip:
  assumes "\<not> url_truthy (primary_ip_url d)"
  shows "get_fqdn net d w = (Inr (d\<lparr>dns_name := JStr (name d @ ''.'' @ slug d @ ''.wmnet'')\<rparr>), w)"
  using assms by (simp add: get_fqdn_def)

theorem get_fqdn_no_primary_ip_witness:
  "\<not> url_truthy (primary_ip_url (new_host ''cloudvirt1001'' ''eqiad'' (Some ''fqdn.json'')))
   \<and> get_fqdn ex_down (new_host ''cloudvirt1001'' ''eqiad'' (Some ''fqdn.json'')) ex_no_files
     = (Inr ((new_host ''cloudvirt1001'' ''eqiad'' (Some ''fqdn.json''))
               \<lparr>dns_name := JStr ''cloudvirt1001.eqiad.wmnet''\<rparr>),
        ex_no_files)"
  using get_fqdn_no_primary_ip
    [of "new_host ''cloudvirt1001'' ''eqiad'' (Some ''fqdn.json'')" ex_down ex_no_files]
  by (simp add: new_host_def)

subsection \<open>The FQDN cache\<close>

lemma cachedD:
  "cached w p k = Some v \<Longrightarrow> \<exists>kvs. files w p = Some (Parsed (JObj kvs)) \<and> map_of kvs k = Some v"
  by (auto simp add: cached_def split: option.splits cache_file.splits json.splits)

lemma cached_log_event [simp]: "cached (log_event e w) p k = cached w p k"
  by (simp add: cached_def log_event_def)

lemma write_keeps_other:
  assumes "cached w p k = Some v" and "write_fqdn_to_cache d w = (r, w1)"
    and "cachefile d = Some p \<Longrightarrow> json_key (primary_ip_url d) \<noteq> k"
  shows "cached w1 p k = Some v"
proof (cases "cachefile d")
  case None
  with assms show ?thesis by (simp add: write_fqdn_to_cache_def)
next
  case (Some q)
  from cachedD [OF assms(1)] obtain kvs where
    f: "files w p = Some (Parsed (JObj kvs))" and m: "map_of kvs k = Some v" by blast
  show ?thesis
  proof (cases "q = p")
    case True
    with Some assms(2,3) f m show ?thesis
      by (auto simp add: write_fqdn_to_cache_def log_event_def cached_def Let_def update_conv')
  next
    case False
    with Some assms(1,2) show ?thesis
      by (auto simp add: write_fqdn_to_cache_def log_event_def cached_def Let_def
          split: option.splits sum.splits)
  qed
qed

lemma api_keeps_cached:
  assumes "cached w p k = Some v" and "get_fqdn_from_api net d w = (r, w1)"
    and "cachefile d = Some p \<Longrightarrow> primary_ip_url d \<noteq> Some k"
  shows "cached w1 p k = Some v"
proof (cases "primary_ip_url d")
  case None
  with assms show ?thesis by (simp add: get_fqdn_from_api_def)
next
  case (Some u)
  have keep: "cached w2 p k = Some v"
    if "write_fqdn_to_cache (d\<lparr>dns_name := x\<rparr>) (log_event (HttpGet u) w) = (r2, w2)" for x r2 w2
    using write_keeps_other [of "log_event (HttpGet u) w" p k v "d\<lparr>dns_name := x\<rparr>" r2 w2]
      assms(1,3) that Some by auto
  from assms(1,2) Some show ?thesis
    by (auto simp add: get_fqdn_from_api_def Let_def
        split: reply.splits option.splits sum.splits if_splits dest: keep)
qed

lemma from_cache_result:
  assumes "get_fqdn_from_cache d w = (Inr d1, w0)"
  shows "cachefile d1 = cachefile d" and "primary_ip_url d1 = primary_ip_url d"
    and "cached w0 p k = cached w p k"
    and "cachefile d = Some p \<Longrightarrow> primary_ip_url d = Some k \<Longrightarrow> cached w p k = Some v
         \<Longrightarrow> dns_name d1 = v"
  using assms
  by (auto simp add: get_fqdn_from_cache_def Let_def cached_def log_event_def
      split: option.splits sum.splits cache_file.splits json.splits)

lemma from_cache_error:
  assumes "get_fqdn_from_cache d w = (Inl e, w0)"
  shows "cached w0 p k = cached w p k"
  using assms
  by (auto simp add: get_fqdn_from_cache_def Let_def cached_def log_event_def
      split: option.splits sum.splits)

lemma get_fqdn_keeps_cached:
  assumes "cached w p k = Some v" and "truthy v" and "get_fqdn net d w = (r, w1)"
  shows "cached w1 p k = Some v"
proof (cases "url_truthy (primary_ip_url d)")
  case False
  with assms show ?thesis by (simp add: get_fqdn_def)
next
  case True
  show ?thesis
  proof (cases "cachefile d")
    case None
    with True assms(3) have "w1 = w \<or> get_fqdn_from_api net d w = (r, w1)"
      by (auto simp add: get_fqdn_def split: if_splits)
    with assms(1) None show ?thesis
      using api_keeps_cached [of w p k v net d r w1] by auto
  next
    case (Some q)
    obtain r0 w0 where rc: "get_fqdn_from_cache d w = (r0, w0)" by force
    show ?thesis
    proof (cases r0)
      case (Inl e)
      with rc True Some assms(3) have "w1 = w0" by (simp add: get_fqdn_def)
      with from_cache_error [of d w e w0 p k] rc Inl assms(1) show ?thesis by simp
    next
      case (Inr d1)
      note res = from_cache_result [OF rc [unfolded Inr]]
      have c0: "cached w0 p k = Some v" using res(3) [of p k] assms(1) by simp
      show ?thesis
      proof (cases "truthy (dns_name d1)")
        case True
        with rc Inr \<open>url_truthy (primary_ip_url d)\<close> Some assms(3) have "w1 = w0"
          by (simp add: get_fqdn_def)
        with c0 show ?thesis by simp
      next
        case False
        with rc Inr \<open>url_truthy (primary_ip_url d)\<close> Some assms(3)
        have api: "get_fqdn_from_api net d1 w0 = (r, w1)"
          by (simp add: get_fqdn_def)
        have "primary_ip_url d1 \<noteq> Some k" if "cachefile d1 = Some p"
        proof
          assume "primary_ip_url d1 = Some k"
          with that res(1,2) have "cachefile d = Some p" "primary_ip_url d = Some k" by simp_all
          from res(4) [OF this assms(1)] assms(2) False show False by simp
        qed
        with api_keeps_cached [OF c0 api] show ?thesis by blast
      qed
    qed
  qed
qed

lemma netbox_step_keeps_cached:
  assumes "cached w p k = Some v" and "truthy v" and "netbox_step net cf result hosts w = (r, w1)"
  shows "cached w1 p k = Some v"
proof (cases "make_device cf result")
  case (Inl e)
  with assms show ?thesis by (simp add: netbox_step_def)
next
  case (Inr d)
  obtain r0 w0 where g: "get_fqdn net d w = (r0, w0)" by force
  with Inr assms(3) have "w1 = w0" by (cases r0) (simp_all add: netbox_step_def)
  with get_fqdn_keeps_cached [OF assms(1,2) g] show ?thesis by simp
qed

lemma netbox_loop_keeps_cached:
  assumes "cached w p k = Some v" and "truthy v" and "netbox_loop net cf results hosts w = (r, w1)"
  shows "cached w1 p k = Some v"
  using assms
proof (induction results arbitrary: hosts w)
  case Nil
  then show ?case by simp
next
  case (Cons result rest)
  obtain r0 w0 where s: "netbox_step net cf result hosts w = (r0, w0)" by force
  from netbox_step_keeps_cached [OF Cons.prems(1,2) s] have c: "cached w0 p k = Some v" .
  show ?case
  proof (cases r0)
    case (Inl e)
    with s Cons.prems(3) c show ?thesis by simp
  next
    case (Inr hosts1)
    with s Cons.prems(3) have "netbox_loop net cf rest hosts1 w0 = (r, w1)" by simp
    from Cons.IH [OF c Cons.prems(2) this] show ?thesis .
  qed
qed

text \<open>
  C1. Cache read-through. A device has a primary-IP URL \<open>u\<close> (not empty: an empty URL
  counts as none) and a cache file \<open>p\<close> that holds a non-empty value \<open>v\<close> under \<open>u\<close>.
  Then \<^verbatim>\<open>get_fqdn\<close> sets \<^verbatim>\<open>dns_name\<close> to \<open>v\<close>; its only effect is opening the cache file
  once, so no request is sent; all files are as before. And the entry stays: whatever
  records the device loop goes on to process from this world, with whatever cache
  file, the cache at \<open>p\<close> still has \<open>v\<close> under \<open>u\<close> afterwards.
\<close>

theorem get_fqdn_cache_hit:
  assumes "primary_ip_url d = Some u" and "u \<noteq> []" and "cachefile d = Some p"
    and "cached w p u = Some v" and "truthy v"
  shows "get_fqdn net d w = (Inr (d\<lparr>dns_name := v\<rparr>), w\<lparr>trace := trace w @ [Open p]\<rparr>)
       \<and> (\<forall>cf results hosts. cached (snd (netbox_loop net cf results hosts w)) p u = Some v)"
proof -
  from cachedD [OF assms(4)] obtain kvs where
    "files w p = Some (Parsed (JObj kvs))" and "map_of kvs u = Some v" by blast
  with assms have "get_fqdn net d w = (Inr (d\<lparr>dns_name := v\<rparr>), log_event (Open p) w)"
    by (simp add: get_fqdn_def get_fqdn_from_cache_def)
  moreover have "cached (snd (netbox_loop net cf results hosts w)) p u = Some v" for cf results hosts
    using netbox_loop_keeps_cached [OF assms(4,5), of net cf results hosts] by (metis prod.collapse)
  ultimately show ?thesis by (simp add: log_event_def)
qed

theorem get_fqdn_cache_hit_witness:
  "primary_ip_url (ex_device ''db1001'' ''ip/1'') = Some ''ip/1'' \<and> ''ip/1'' \<noteq> []
   \<and> cachefile (ex_device ''db1001'' ''ip/1'') = Some ''fqdn.json''
   \<and> cached ex_world ''fqdn.json'' ''ip/1'' = Some (JStr ''db1001.eqiad.wmnet'')
   \<and> truthy (JStr ''db1001.eqiad.wmnet'')
   \<and> get_fqdn ex_down (ex_device ''db1001'' ''ip/1'') ex_world
       = (Inr ((ex_device ''db1001'' ''ip/1'')\<lparr>dns_name := JStr ''db1001.eqiad.wmnet''\<rparr>),
          ex_world\<lparr>trace := [Open ''fqdn.json'']\<rparr>)"
proof -
  have h: "primary_ip_url (ex_device ''db1001'' ''ip/1'') = Some ''ip/1''" "''ip/1'' \<noteq> []"
    "cachefile (ex_device ''db1001'' ''ip/1'') = Some ''fqdn.json''"
    "cached ex_world ''fqdn.json'' ''ip/1'' = Some (JStr ''db1001.eqiad.wmnet'')"
    "truthy (JStr ''db1001.eqiad.wmnet'')"
    by (simp_all add: ex_device_def new_host_def ex_world_def cached_def)
  have t: "trace ex_world = []" by (simp add: ex_world_def)
  from get_fqdn_cache_hit [OF h, of ex_down] h t show ?thesis by simp
qed

text \<open>
  C2. Cache write-through with frame. A device has a primary-IP URL \<open>u\<close> and a cache file
  \<open>p\<close> that exists and holds the mapping \<open>kvs\<close> (the empty one if the file is corrupt)
  with no entry for \<open>u\<close>; the request to \<open>u\<close> is answered without an error status by a
  body whose \<^verbatim>\<open>dns_name\<close> is a non-empty value \<open>v\<close>. Then \<^verbatim>\<open>get_fqdn\<close> sets \<^verbatim>\<open>dns_name\<close>
  to \<open>v\<close> and leaves in file \<open>p\<close> the mapping \<open>kvs\<close> with \<open>u\<close> set to \<open>v\<close>: \<open>u\<close> maps to
  \<open>v\<close>, and every entry of \<open>kvs\<close> is there with its value. No other file changes.
\<close>

theorem get_fqdn_write_through:
  assumes "primary_ip_url d = Some u" and "u \<noteq> []" and "cachefile d = Some p"
    and "files w p = Some f" and "load_or_empty f = JObj kvs" and "map_of kvs u = None"
    and "net (trace w @ [Open p]) u = Reply st (Some ip_info)" and "\<not> raise_for_status st"
    and "getitem ip_info ''dns_name'' = Inr v" and "truthy v"
  shows "get_fqdn net d w =
           (Inr (d\<lparr>dns_name := v\<rparr>),
            w\<lparr>files := (files w)(p \<mapsto> Parsed (JObj (AList.update u v kvs))),
              trace := trace w @ [Open p, HttpGet u, Open p]\<rparr>)
         \<and> map_of (AList.update u v kvs) u = Some v
         \<and> (\<forall>k x. map_of kvs k = Some x \<longrightarrow> map_of (AList.update u v kvs) k = Some x)"
  using assms
  by (auto simp add: get_fqdn_def get_fqdn_from_cache_def get_fqdn_from_api_def
      write_fqdn_to_cache_def log_event_def update_conv')

theorem get_fqdn_write_through_witness:
  "primary_ip_url (ex_device ''db1002'' ''ip/2'') = Some ''ip/2'' \<and> ''ip/2'' \<noteq> []
   \<and> cachefile (ex_device ''db1002'' ''ip/2'') = Some ''fqdn.json''
   \<and> files ex_world ''fqdn.json'' = Some (Parsed (JObj [(''ip/1'', JStr ''db1001.eqiad.wmnet'')]))
   \<and> load_or_empty (Parsed (JObj [(''ip/1'', JStr ''db1001.eqiad.wmnet'')]))
       = JObj [(''ip/1'', JStr ''db1001.eqiad.wmnet'')]
   \<and> map_of [(''ip/1'', JStr ''db1001.eqiad.wmnet'')] ''ip/2'' = None
   \<and> ex_always 200 (JObj [(''dns_name'', JStr ''db1002.eqiad.wmnet'')])
        (trace ex_world @ [Open ''fqdn.json'']) ''ip/2''
       = Reply 200 (Some (JObj [(''dns_name'', JStr ''db1002.eqiad.wmnet'')]))
   \<and> \<not> raise_for_status 200
   \<and> getitem (JObj [(''dns_name'', JStr ''db1002.eqiad.wmnet'')]) ''dns_name''
       = Inr (JStr ''db1002.eqiad.wmnet'')
   \<and> truthy (JStr ''db1002.eqiad.wmnet'')
   \<and> get_fqdn (ex_always 200 (JObj [(''dns_name'', JStr ''db1002.eqiad.wmnet'')]))
        (ex_device ''db1002'' ''ip/2'') ex_world
       = (Inr ((ex_device ''db1002'' ''ip/2'')\<lparr>dns_name := JStr ''db1002.eqiad.wmnet''\<rparr>),
          \<lparr>files = [''fqdn.json'' \<mapsto> Parsed (JObj [(''ip/1'', JStr ''db1001.eqiad.wmnet''),
                                                  (''ip/2'', JStr ''db1002.eqiad.wmnet'')])],
           trace = [Open ''fqdn.json'', HttpGet ''ip/2'', Open ''fqdn.json'']\<rparr>)"
proof -
  have h: "primary_ip_url (ex_device ''db1002'' ''ip/2'') = Some ''ip/2''" "''ip/2'' \<noteq> []"
    "cachefile (ex_device ''db1002'' ''ip/2'') = Some ''fqdn.json''"
    "files ex_world ''fqdn.json'' = Some (Parsed (JObj [(''ip/1'', JStr ''db1001.eqiad.wmnet'')]))"
    "load_or_empty (Parsed (JObj [(''ip/1'', JStr ''db1001.eqiad.wmnet'')]))
       = JObj [(''ip/1'', JStr ''db1001.eqiad.wmnet'')]"
    "map_of [(''ip/1'', JStr ''db1001.eqiad.wmnet'')] ''ip/2'' = None"
    "ex_always 200 (JObj [(''dns_name'', JStr ''db1002.eqiad.wmnet'')])
        (trace ex_world @ [Open ''fqdn.json'']) ''ip/2''
       = Reply 200 (Some (JObj [(''dns_name'', JStr ''db1002.eqiad.wmnet'')]))"
    "\<not> raise_for_status 200"
    "getitem (JObj [(''dns_name'', JStr ''db1002.eqiad.wmnet'')]) ''dns_name''
       = Inr (JStr ''db1002.eqiad.wmnet'')"
    "truthy (JStr ''db1002.eqiad.wmnet'')"
    by (simp_all add: ex_device_def new_host_def ex_world_def ex_always_def raise_for_status_def)
  have w: "ex_world\<lparr>files := (files ex_world)(''fqdn.json'' \<mapsto>
              Parsed (JObj (AList.update ''ip/2'' (JStr ''db1002.eqiad.wmnet'')
                              [(''ip/1'', JStr ''db1001.eqiad.wmnet'')]))),
            trace := trace ex_world @ [Open ''fqdn.json'', HttpGet ''ip/2'', Open ''fqdn.json'']\<rparr>
      = \<lparr>files = [''fqdn.json'' \<mapsto> Parsed (JObj [(''ip/1'', JStr ''db1001.eqiad.wmnet''),
                                                  (''ip/2'', JStr ''db1002.eqiad.wmnet'')])],
           trace = [Open ''fqdn.json'', HttpGet ''ip/2'', Open ''fqdn.json'']\<rparr>"
    by (simp add: ex_world_def)
  from get_fqdn_write_through
    [where net = "ex_always 200 (JObj [(''dns_name'', JStr ''db1002.eqiad.wmnet'')])", OF h] h w
  show ?thesis by simp
qed

text \<open>
  C9. A device has a primary-IP URL and a cache file path, and no file is there. Then
  \<^verbatim>\<open>get_fqdn\<close> raises \<^verbatim>\<open>FileNotFoundError\<close>, as the cache read does and as the write-back
  would; were the file there and corrupt, the cache read would return with no name and
  no error.
\<close>

theorem get_fqdn_missing_cache_file:
  assumes "url_truthy (primary_ip_url d)" and "cachefile d = Some p" and "files w p = None"
  shows "get_fqdn net d w = (Inl FileNotFoundError, log_event (Open p) w)
       \<and> get_fqdn_from_cache d w = (Inl FileNotFoundError, log_event (Open p) w)
       \<and> write_fqdn_to_cache d w = (Inl FileNotFoundError, log_event (Open p) w)
       \<and> get_fqdn_from_cache d (w\<lparr>files := (files w)(p \<mapsto> Corrupt)\<rparr>)
           = (Inr (d\<lparr>dns_name := JNull\<rparr>),
              log_event (Open p) (w\<lparr>files := (files w)(p \<mapsto> Corrupt)\<rparr>))"
proof -
  from assms(1) obtain u where "primary_ip_url d = Some u" by (cases "primary_ip_url d") simp_all
  with assms show ?thesis
    by (simp add: get_fqdn_def get_fqdn_from_cache_def write_fqdn_to_cache_def log_event_def)
qed

theorem get_fqdn_missing_cache_file_witness:
  "url_truthy (primary_ip_url (ex_device ''db1001'' ''ip/1''))
   \<and> cachefile (ex_device ''db1001'' ''ip/1'') = Some ''fqdn.json''
   \<and> files ex_no_files ''fqdn.json'' = None
   \<and> get_fqdn ex_down (ex_device ''db1001'' ''ip/1'') ex_no_files
       = (Inl FileNotFoundError, \<lparr>files = Map.empty, trace = [Open ''fqdn.json'']\<rparr>)"
proof -
  have h: "url_truthy (primary_ip_url (ex_device ''db1001'' ''ip/1''))"
    "cachefile (ex_device ''db1001'' ''ip/1'') = Some ''fqdn.json''"
    "files ex_no_files ''fqdn.json'' = None"
    by (simp_all add: ex_device_def new_host_def ex_no_files_def)
  have "log_event (Open ''fqdn.json'') ex_no_files = \<lparr>files = Map.empty, trace = [Open ''fqdn.json'']\<rparr>"
    by (simp add: log_event_def ex_no_files_def)
  with get_fqdn_missing_cache_file [OF h, of ex_down] h show ?thesis by simp
qed

subsection \<open>The device-list builder\<close>

lemma make_device_fields:
  "make_device cf result = Inr d \<Longrightarrow> cachefile d = cf \<and> dns_name d = JNull"
  by (auto simp add: make_device_def new_host_def split: sum.splits if_splits)


text \<open>
  C4 as stated also covers a response in which the \<^verbatim>\<open>dns_name\<close> field is absent. There
  \<^verbatim>\<open>ip_info["dns_name"]\<close> raises \<^verbatim>\<open>KeyError\<close>: the resolution of the device, and with it
  the turn of the device loop, ends with an error.
\<close>

theorem get_fqdn_absent_dns_name_raises:
  "get_fqdn (ex_always 200 (JObj [(''address'', JStr ''10.0.0.2/24'')]))
     (ex_device ''db1002'' ''ip/2'') ex_world
     = (Inl KeyError, ex_world\<lparr>trace := [Open ''fqdn.json'', HttpGet ''ip/2'']\<rparr>)
   \<and> netbox_step (ex_always 200 (JObj [(''address'', JStr ''10.0.0.2/24'')]))
       (Some ''fqdn.json'') (ex_record ''db1002'' ''ip/2'') [] ex_world
     = (Inl KeyError, ex_world\<lparr>trace := [Open ''fqdn.json'', HttpGet ''ip/2'']\<rparr>)"
  by (simp add: get_fqdn_def get_fqdn_from_cache_def get_fqdn_from_api_def netbox_step_def
      make_device_def ex_record_def ex_device_def new_host_def ex_world_def ex_always_def
      log_event_def raise_for_status_def)

text \<open>
  C4, as the code has it. A record gives a device with primary-IP URL \<open>u\<close>; the cache does
  not answer for \<open>u\<close>; the request to \<open>u\<close> is answered without an error status by a body
  that has the key \<^verbatim>\<open>dns_name\<close> with an empty value (\<^verbatim>\<open>""\<close>, \<^verbatim>\<open>null\<close>). Then the turn of
  the loop for this record ends without error and with the output list as it was, the
  files are as before (nothing is written to the cache), and the loop goes on with the
  remaining records.
\<close>

theorem netbox_step_empty_dns_name:
  assumes "make_device cf result = Inr d" and "primary_ip_url d = Some u" and "u \<noteq> []"
    and "cache_miss cf u w"
    and "net (trace (after_cache_read cf w)) u = Reply st (Some ip_info)"
    and "\<not> raise_for_status st"
    and "getitem ip_info ''dns_name'' = Inr v" and "\<not> truthy v"
  shows "netbox_step net cf result hosts w = (Inr hosts, log_event (HttpGet u) (after_cache_read cf w))
       \<and> files (log_event (HttpGet u) (after_cache_read cf w)) = files w
       \<and> netbox_loop net cf (result # rest) hosts w
           = netbox_loop net cf rest hosts (log_event (HttpGet u) (after_cache_read cf w))"
proof -
  from make_device_fields [OF assms(1)] have cf: "cachefile d = cf" and dn: "dns_name d = JNull"
    by simp_all
  have "\<exists>d1. get_fqdn net d w = (Inr d1, log_event (HttpGet u) (after_cache_read cf w))
          \<and> \<not> truthy (dns_name d1)"
  proof (cases cf)
    case None
    with assms cf dn show ?thesis
      by (simp add: get_fqdn_def get_fqdn_from_api_def after_cache_read_def)
  next
    case (Some p)
    with assms(4) obtain f c where "files w p = Some f"
      and "dict_get (load_or_empty f) (Some u) = Inr c" and "\<not> truthy c"
      by (auto simp add: cache_miss_def split: option.splits sum.splits)
    with Some assms cf show ?thesis
      by (simp add: get_fqdn_def get_fqdn_from_cache_def get_fqdn_from_api_def
          after_cache_read_def log_event_def)
  qed
  then obtain d1 where "get_fqdn net d w = (Inr d1, log_event (HttpGet u) (after_cache_read cf w))"
    and "\<not> truthy (dns_name d1)" by blast
  with assms(1) have
    "netbox_step net cf result hosts w = (Inr hosts, log_event (HttpGet u) (after_cache_read cf w))"
    by (simp add: netbox_step_def)
  then show ?thesis
    by (simp add: log_event_def after_cache_read_def split: option.splits)
qed


theorem netbox_step_empty_dns_name_witness:
  "make_device (Some ''fqdn.json'') (ex_record ''db1002'' ''ip/2'') = Inr (ex_device ''db1002'' ''ip/2'')
   \<and> primary_ip_url (ex_device ''db1002'' ''ip/2'') = Some ''ip/2'' \<and> ''ip/2'' \<noteq> []
   \<and> cache_miss (Some ''fqdn.json'') ''ip/2'' ex_world
   \<and> ex_always 200 (JObj [(''dns_name'', JStr [])])
        (trace (after_cache_read (Some ''fqdn.json'') ex_world)) ''ip/2''
       = Reply 200 (Some (JObj [(''dns_name'', JStr [])]))
   \<and> \<not> raise_for_status 200
   \<and> getitem (JObj [(''dns_name'', JStr [])]) ''dns_name'' = Inr (JStr [])
   \<and> \<not> truthy (JStr [])
   \<and> netbox_step (ex_always 200 (JObj [(''dns_name'', JStr [])])) (Some ''fqdn.json'')
        (ex_record ''db1002'' ''ip/2'') [JStr ''db1001.eqiad.wmnet''] ex_world
       = (Inr [JStr ''db1001.eqiad.wmnet''],
          ex_world\<lparr>trace := [Open ''fqdn.json'', HttpGet ''ip/2'']\<rparr>)"
proof -
  have h: "make_device (Some ''fqdn.json'') (ex_record ''db1002'' ''ip/2'') = Inr (ex_device ''db1002'' ''ip/2'')"
    "primary_ip_url (ex_device ''db1002'' ''ip/2'') = Some ''ip/2''" "''ip/2'' \<noteq> []"
    "cache_miss (Some ''fqdn.json'') ''ip/2'' ex_world"
    "ex_always 200 (JObj [(''dns_name'', JStr [])])
        (trace (after_cache_read (Some ''fqdn.json'') ex_world)) ''ip/2''
       = Reply 200 (Some (JObj [(''dns_name'', JStr [])]))"
    "\<not> raise_for_status 200"
    "getitem (JObj [(''dns_name'', JStr [])]) ''dns_name'' = Inr (JStr [])"
    "\<not> truthy (JStr [])"
    by (simp_all add: make_device_def ex_record_def ex_device_def new_host_def cache_miss_def
        ex_world_def ex_always_def raise_for_status_def)
  have w: "log_event (HttpGet ''ip/2'') (after_cache_read (Some ''fqdn.json'') ex_world)
           = ex_world\<lparr>trace := [Open ''fqdn.json'', HttpGet ''ip/2'']\<rparr>"
    by (simp add: log_event_def after_cache_read_def ex_world_def)
  from netbox_step_empty_dns_name
    [where net = "ex_always 200 (JObj [(''dns_name'', JStr [])])"
       and hosts = "[JStr ''db1001.eqiad.wmnet'']" and rest = "[]", OF h] h w
  show ?thesis by simp
qed

subsection \<open>The paginated fetcher\<close>

lemma fetch_loop_pages:
  "serves_pages net (trace w) u pages \<Longrightarrow>
   fetch_loop net (JStr u) acc w =
     Some (Inr (acc @ concat (map fst pages)), w\<lparr>trace := trace w @ map HttpGet (page_urls u pages)\<rparr>)"
proof (induction pages arbitrary: u acc w)
  case Nil
  then show ?case by simp
next
  case (Cons pg pages)
  obtain rs nxt where pg: "pg = (rs, nxt)" by (cases pg)
  from Cons.prems pg obtain st data where u: "u \<noteq> []"
    and n: "net (trace w) u = Reply st (Some data)"
    and r: "getitem data ''results'' = Inr (JArr rs)"
    and x: "getitem data ''next'' = Inr nxt"
    and rest: "if pages = [] then \<not> truthy nxt
               else (case nxt of JStr u1 \<Rightarrow> serves_pages net (trace w @ [HttpGet u]) u1 pages | _ \<Rightarrow> False)"
    by (auto split: reply.splits option.splits)
  have step: "fetch_loop net (JStr u) acc w = fetch_loop net nxt (acc @ rs) (log_event (HttpGet u) w)"
    using u n r x by (subst fetch_loop.simps) simp
  show ?case
  proof (cases "pages = []")
    case True
    with rest have "\<not> truthy nxt" by simp
    then have "fetch_loop net nxt (acc @ rs) (log_event (HttpGet u) w)
               = Some (Inr (acc @ rs), log_event (HttpGet u) w)"
      by (subst fetch_loop.simps) simp
    moreover from \<open>\<not> truthy nxt\<close> have "(case nxt of JStr u1 \<Rightarrow> page_urls u1 [] | _ \<Rightarrow> []) = []"
      by (cases nxt) simp_all
    ultimately show ?thesis using step True pg by (simp add: log_event_def)
  next
    case False
    with rest obtain u1 where nx: "nxt = JStr u1"
      and sv: "serves_pages net (trace (log_event (HttpGet u) w)) u1 pages"
      by (cases nxt) (simp_all add: log_event_def)
    from Cons.IH [OF sv, of "acc @ rs"] step nx pg show ?thesis
      by (simp add: log_event_def)
  qed
qed

lemma length_page_urls:
  "serves_pages net tr u pages \<Longrightarrow> length (page_urls u pages) = length pages"
proof (induction pages arbitrary: u tr)
  case Nil
  then show ?case by simp
next
  case (Cons pg pages)
  obtain rs nxt where pg: "pg = (rs, nxt)" by (cases pg)
  show ?case
  proof (cases "pages = []")
    case True
    with pg show ?thesis by (cases nxt) simp_all
  next
    case False
    with Cons.prems pg obtain u1 where "nxt = JStr u1"
      and "serves_pages net (tr @ [HttpGet u]) u1 pages"
      by (cases nxt) (auto split: reply.splits option.splits)
    with Cons.IH pg show ?thesis by simp
  qed
qed

text \<open>
  C5 as stated also covers a page in which \<^verbatim>\<open>next\<close> is absent. There \<^verbatim>\<open>data["next"]\<close>
  raises \<^verbatim>\<open>KeyError\<close>: the page's results are not returned.
\<close>

theorem fetch_all_results_absent_next_raises:
  "fetch_all_results (ex_always 200 (JObj [(''results'', JArr [ex_record ''db1002'' ''ip/2''])]))
     ''devices'' ex_no_files
   = Some (Inl KeyError, \<lparr>files = Map.empty, trace = [HttpGet ''devices'']\<rparr>)"
  unfolding fetch_all_results_def
  by (subst fetch_loop.simps) (simp add: ex_always_def ex_no_files_def log_event_def)

text \<open>
  C5, as the code has it. When the network serves a sequence of pages from \<open>url\<close> on
  (each body has a \<^verbatim>\<open>results\<close> array and the key \<^verbatim>\<open>next\<close>, empty on the last page
  only), \<^verbatim>\<open>fetch_all_results\<close> returns the pages' results concatenated in page order,
  and its effects are one request per page, to the pages' URLs in order, and no more.
\<close>

theorem fetch_all_results_pages:
  assumes "serves_pages net (trace w) url pages"
  shows "fetch_all_results net url w =
           Some (Inr (concat (map fst pages)),
                 w\<lparr>trace := trace w @ map HttpGet (page_urls url pages)\<rparr>)
       \<and> length (page_urls url pages) = length pages"
  using fetch_loop_pages [OF assms, of "[]"] length_page_urls [OF assms]
  by (simp add: fetch_all_results_def)

theorem fetch_all_results_pages_witness:
  "serves_pages ex_three_pages (trace ex_no_files) ''p1''
     [([JStr ''r1'', JStr ''r2''], JStr ''p2''), ([JStr ''r3''], JStr ''p3''),
      ([JStr ''r4'', JStr ''r5''], JNull)]
   \<and> fetch_all_results ex_three_pages ''p1'' ex_no_files
       = Some (Inr [JStr ''r1'', JStr ''r2'', JStr ''r3'', JStr ''r4'', JStr ''r5''],
               \<lparr>files = Map.empty, trace = [HttpGet ''p1'', HttpGet ''p2'', HttpGet ''p3'']\<rparr>)"
proof -
  have h: "serves_pages ex_three_pages (trace ex_no_files) ''p1''
     [([JStr ''r1'', JStr ''r2''], JStr ''p2''), ([JStr ''r3''], JStr ''p3''),
      ([JStr ''r4'', JStr ''r5''], JNull)]"
    by (simp add: ex_three_pages_def)
  from fetch_all_results_pages [OF h] h show ?thesis by (simp add: ex_no_files_def)
qed

text \<open>
  C3. \<^verbatim>\<open>fetch_all_results\<close> does not look at the status code: a page answered with status
  500 whose body is a well-formed envelope is taken like any other, and its results are
  returned. \<^verbatim>\<open>_get_fqdn_from_api\<close>, which calls \<^verbatim>\<open>raise_for_status\<close>, raises
  \<^verbatim>\<open>HTTPError\<close> on the same answer.
\<close>

theorem fetch_all_results_ignores_status:
  "fetch_all_results (ex_always 500 (JObj [(''results'', JArr [JStr ''r1'']), (''next'', JNull)]))
     ''devices'' ex_no_files
     = Some (Inr [JStr ''r1''], \<lparr>files = Map.empty, trace = [HttpGet ''devices'']\<rparr>)
   \<and> get_fqdn_from_api (ex_always 500 (JObj [(''results'', JArr [JStr ''r1'']), (''next'', JNull)]))
       (ex_device ''db1002'' ''devices'') ex_no_files
     = (Inl HTTPError, \<lparr>files = Map.empty, trace = [HttpGet ''devices'']\<rparr>)"
proof -
  have "fetch_loop (ex_always 500 (JObj [(''results'', JArr [JStr ''r1'']), (''next'', JNull)]))
          JNull [JStr ''r1''] w = Some (Inr [JStr ''r1''], w)" for w
    by (subst fetch_loop.simps) simp
  then have "fetch_all_results (ex_always 500 (JObj [(''results'', JArr [JStr ''r1'']), (''next'', JNull)]))
     ''devices'' ex_no_files
     = Some (Inr [JStr ''r1''], \<lparr>files = Map.empty, trace = [HttpGet ''devices'']\<rparr>)"
    unfolding fetch_all_results_def
    by (subst fetch_loop.simps) (simp add: ex_always_def ex_no_files_def log_event_def)
  then show ?thesis
    by (simp add: get_fqdn_from_api_def ex_always_def ex_device_def new_host_def ex_no_files_def
        log_event_def raise_for_status_def)
qed

subsection \<open>The merger\<close>

lemma merged_not_source: "get_cache_file ''merged'' \<notin> set cachefiles_to_merge"
  by (simp add: cachefiles_to_merge_def get_cache_file_def DEFAULT_CACHE_PATH_def)

lemma set_merged_data:
  "set (concat (map (\<lambda>cachefile. case fs cachefile of None \<Rightarrow> []
                       | Some content \<Rightarrow> splitlines (universal_newlines content)) ps))
   = (\<Union>p \<in> set ps. case fs p of None \<Rightarrow> {}
                       | Some content \<Rightarrow> set (splitlines (universal_newlines content)))"
  by (induction ps) (auto split: option.splits)

lemma finite_union_of_lines: "finite (spec_union_of_lines fs)"
  by (auto simp add: spec_union_of_lines_def split: option.splits)

text \<open>
  C7. Whatever the text files are, \<^verbatim>\<open>merge_cachefiles\<close> changes the merged file only,
  to the lines of the union of the lines of the source files that exist, sorted and
  without duplicates, joined by \<^verbatim>\<open>\n\<close>; what the merged file held before is gone, and a
  source file that does not exist adds nothing.
\<close>

theorem merge_cachefiles_correct:
  "merge_cachefiles fs
     = fs(get_cache_file ''merged'' \<mapsto> join_lines (sorted_list_of_set (spec_union_of_lines fs)))
   \<and> sorted (sorted_list_of_set (spec_union_of_lines fs))
   \<and> distinct (sorted_list_of_set (spec_union_of_lines fs))
   \<and> set (sorted_list_of_set (spec_union_of_lines fs)) = spec_union_of_lines fs"
proof -
  have "sort (remdups xs) = sorted_list_of_set (set xs)" for xs :: "string list"
    by (simp only: sorted_list_of_set_sort_remdups)
  then have "merge_cachefiles fs
     = fs(get_cache_file ''merged'' \<mapsto> join_lines (sorted_list_of_set (spec_union_of_lines fs)))"
    unfolding merge_cachefiles_def Let_def spec_union_of_lines_def set_merged_data [symmetric]
    by (simp only:)
  then show ?thesis
    using finite_union_of_lines [of fs] by simp
qed

theorem merge_cachefiles_correct_witness:
  "merge_cachefiles ex_sources (get_cache_file ''merged'') = Some [CHR ''a'', LF, CHR ''b'', LF, CHR ''c'']
   \<and> spec_union_of_lines ex_sources = {''a'', ''b'', ''c''}"
proof -
  have u: "spec_union_of_lines ex_sources = set [''a'', ''b'', ''c'']"
    by (auto simp add: spec_union_of_lines_def ex_sources_def cachefiles_to_merge_def
        get_cache_file_def DEFAULT_CACHE_PATH_def splitlines_def is_linebreak_def)
  have "sorted_list_of_set (set [''a'', ''b'', ''c'']) = [''a'', ''b'', ''c'']"
    by (simp only: sorted_list_of_set_sort_remdups) simp
  with merge_cachefiles_correct [of ex_sources] u show ?thesis by simp
qed

lemma map_cong_sources:
  "m \<notin> set ps \<Longrightarrow> map (\<lambda>p. g ((fs(m \<mapsto> x)) p)) ps = map (\<lambda>p. g (fs p)) ps"
  by (induction ps) auto


text \<open>
  C8. Merging twice in a row gives what merging once gives: the same files, so the same
  merged file byte for byte.
\<close>

theorem merge_cachefiles_idempotent: "merge_cachefiles (merge_cachefiles fs) = merge_cachefiles fs"
proof -
  let ?g = "\<lambda>r. case r of None \<Rightarrow> [] | Some content \<Rightarrow> splitlines (universal_newlines content)"
  define out where
    "out gs = join_lines (sort (remdups (concat (map (\<lambda>p. ?g (gs p)) cachefiles_to_merge))))"
    for gs :: text_files
  have m: "merge_cachefiles gs = gs(get_cache_file ''merged'' \<mapsto> out gs)" for gs
    unfolding merge_cachefiles_def out_def Let_def by (rule refl)
  have "map (\<lambda>p. ?g ((fs(get_cache_file ''merged'' \<mapsto> out fs)) p)) cachefiles_to_merge
        = map (\<lambda>p. ?g (fs p)) cachefiles_to_merge"
    by (rule map_cong_sources [OF merged_not_source])
  then have same: "out (fs(get_cache_file ''merged'' \<mapsto> out fs)) = out fs"
    unfolding out_def by (simp only:)
  have "merge_cachefiles (merge_cachefiles fs)
        = (fs(get_cache_file ''merged'' \<mapsto> out fs))(get_cache_file ''merged'' \<mapsto> out fs)"
    by (simp only: m same)
  also have "\<dots> = fs(get_cache_file ''merged'' \<mapsto> out fs)" by simp
  finally show ?thesis by (simp only: m)
qed

subsection \<open>The local known-hosts reader\<close>

lemma split_once_Nil: "split_once l = [] \<longleftrightarrow> (\<forall>c \<in> set l. is_space c)"
proof -
  have "split_once l = [] \<longleftrightarrow> dropWhile is_space l = []"
    unfolding split_once_def Let_def
    by (simp only: if_distrib [of "\<lambda>x. x = []"] list.distinct if_False if_cancel split: if_split)
       blast
  then show ?thesis by (simp only: dropWhile_eq_Nil_conv)
qed

lemma first_tokens_Inl: "first_tokens ls = Inl e \<Longrightarrow> e = IndexError"
proof (induction ls arbitrary: e)
  case Nil
  then show ?case by simp
next
  case (Cons l ls)
  show ?case
  proof (cases "split_once l")
    case Nil
    with Cons.prems show ?thesis by simp
  next
    case (Cons t ts)
    with Cons.prems Cons.IH show ?thesis by (simp split: sum.splits)
  qed
qed

lemma first_tokens_fails:
  "(\<exists>e. first_tokens ls = Inl e) \<longleftrightarrow> (\<exists>l \<in> set ls. \<forall>c \<in> set l. is_space c)"
proof (induction ls)
  case Nil
  then show ?case by simp
next
  case (Cons l ls)
  show ?case
  proof (cases "split_once l")
    case Nil
    with split_once_Nil [of l] show ?thesis by auto
  next
    case (Cons t ts)
    with split_once_Nil [of l] have "\<not> (\<forall>c \<in> set l. is_space c)" by simp
    with Cons Cons.IH show ?thesis by (auto split: sum.splits)
  qed
qed

text \<open>
  C10. For a file that exists, \<^verbatim>\<open>get_local_known_hosts\<close> returns a value exactly when
  every line of the file has a character that is not whitespace, and it raises
  \<^verbatim>\<open>IndexError\<close> exactly when some line is empty or whitespace only.
\<close>

theorem get_local_known_hosts_total_iff:
  assumes "fs p = Some content"
  shows "((\<exists>out. get_local_known_hosts fs p (Inr out))
            \<longleftrightarrow> (\<forall>l \<in> set (file_lines content). \<exists>c \<in> set l. \<not> is_space c))
       \<and> (get_local_known_hosts fs p (Inl IndexError)
            \<longleftrightarrow> (\<exists>l \<in> set (file_lines content). \<forall>c \<in> set l. is_space c))"
proof (cases "first_tokens (file_lines content)")
  case (Inl e)
  with first_tokens_Inl have e: "e = IndexError" by blast
  from Inl first_tokens_fails [of "file_lines content"]
  have "\<exists>l \<in> set (file_lines content). \<forall>c \<in> set l. is_space c" by blast
  with Inl e assms show ?thesis by (auto simp add: get_local_known_hosts_def)
next
  case (Inr toks)
  with first_tokens_fails [of "file_lines content"]
  have ok: "\<not> (\<exists>l \<in> set (file_lines content). \<forall>c \<in> set l. is_space c)" by auto
  have "distinct (remdups toks) \<and> set (remdups toks) = set toks" by simp
  then have "\<exists>out. get_local_known_hosts fs p (Inr out)"
    using Inr assms unfolding get_local_known_hosts_def by (simp, blast)
  with ok Inr assms show ?thesis by (auto simp add: get_local_known_hosts_def)
qed

theorem get_local_known_hosts_total_iff_witness:
  "ex_known_hosts ''known_hosts'' = Some (''hostA ssh-rsa AAAA'' @ [LF, LF] @ ''hostB ssh-rsa BBBB'' @ [LF])
   \<and> [LF] \<in> set (file_lines (''hostA ssh-rsa AAAA'' @ [LF, LF] @ ''hostB ssh-rsa BBBB'' @ [LF]))
   \<and> get_local_known_hosts ex_known_hosts ''known_hosts'' (Inl IndexError)
   \<and> \<not> (\<exists>out. get_local_known_hosts ex_known_hosts ''known_hosts'' (Inr out))"
proof -
  have h: "ex_known_hosts ''known_hosts'' = Some (''hostA ssh-rsa AAAA'' @ [LF, LF] @ ''hostB ssh-rsa BBBB'' @ [LF])"
    by (simp add: ex_known_hosts_def)
  have l: "[LF] \<in> set (file_lines (''hostA ssh-rsa AAAA'' @ [LF, LF] @ ''hostB ssh-rsa BBBB'' @ [LF]))"
    by (simp add: file_lines_def)
  have s: "\<forall>c \<in> set [LF]. is_space c" by (simp add: is_space_def)
  from l s have "\<exists>l \<in> set (file_lines (''hostA ssh-rsa AAAA'' @ [LF, LF] @ ''hostB ssh-rsa BBBB'' @ [LF])).
                   \<forall>c \<in> set l. is_space c" by blast
  with get_local_known_hosts_total_iff [where fs = ex_known_hosts and p = "''known_hosts''", OF h] h l
  show ?thesis by blast
qed

end
